theory Spec2Isabelle
  imports Complex_Main
begin

section \<open>NovaSearch: a shallow embedding of \<^verbatim>\<open>nova_search.py\<close>\<close>

text \<open>
  The class \<^verbatim>\<open>NovaSearch\<close> keeps three dictionaries (the cache, the provider statistics of
  the circuit breaker, the token buckets of the rate limiter) and offers \<^verbatim>\<open>search\<close>, which
  sanitizes the query, looks it up in the cache, and otherwise tries the providers in up to three
  rounds. Each method becomes a HOL function that takes the fields it reads and returns the
  fields it writes. Wall-clock readings (\<^verbatim>\<open>time.time()\<close>) and the provider adapters are inputs
  of the model. Python's floats are modelled as real numbers, its integers as \<open>int\<close>.
\<close>

subsection \<open>Python strings\<close>

text \<open>
  A Python \<^verbatim>\<open>str\<close> is a sequence of Unicode code points: slicing and \<^verbatim>\<open>strip\<close> count code
  points, not bytes. Text that comes from the user is therefore a list of code points. Names that
  the program only compares with its own literals (provider names, search types, hexadecimal
  digests, exception messages) are ASCII and are kept as HOL strings.
\<close>

type_synonym pystr = "nat list"

definition pystr_of :: "string \<Rightarrow> pystr" where
  "pystr_of s = map of_char s"

text \<open>
  \<^verbatim>\<open>str.isspace\<close> for one code point: the characters CPython's \<^verbatim>\<open>_PyUnicode_IsWhitespace\<close>
  accepts.
\<close>

definition isspace :: "nat \<Rightarrow> bool" where
  "isspace c \<longleftrightarrow>
     (0x09 \<le> c \<and> c \<le> 0x0D) \<or> (0x1C \<le> c \<and> c \<le> 0x20) \<or> c = 0x85 \<or> c = 0xA0 \<or>
     c = 0x1680 \<or> (0x2000 \<le> c \<and> c \<le> 0x200A) \<or> c = 0x2028 \<or> c = 0x2029 \<or>
     c = 0x202F \<or> c = 0x205F \<or> c = 0x3000"

text \<open>\<^verbatim>\<open>s.strip()\<close>: drop the whitespace at both ends.\<close>

definition strip :: "pystr \<Rightarrow> pystr" where
  "strip s = rev (dropWhile isspace (rev (dropWhile isspace s)))"

text \<open>\<^verbatim>\<open>s.replace(c, '')\<close> for a pattern \<open>c\<close> of one character.\<close>

definition replace_char :: "pystr \<Rightarrow> nat \<Rightarrow> pystr" where
  "replace_char s c = filter (\<lambda>x. x \<noteq> c) s"

text \<open>\<^verbatim>\<open>kw in s\<close> for strings: \<open>kw\<close> occurs in \<open>s\<close> as a contiguous block.\<close>

fun contains :: "'a list \<Rightarrow> 'a list \<Rightarrow> bool" where
  "contains kw [] = (kw = [])"
| "contains kw (x # xs) = (take (length kw) (x # xs) = kw \<or> contains kw xs)"

subsection \<open>Query sanitizer\<close>

text \<open>
  \<^verbatim>\<open>
  def _sanitize_query(self, query):
      if not query:
          return ""
      max_len = self.config.get('max_query_length', 500)
      query = query[:max_len]
      dangerous = ['<', '>', '"', "'", '&', ';', '|', '`', '$']
      for char in dangerous:
          query = query.replace(char, '')
      return query.strip()
  \<close>
  The configuration is the dictionary \<^verbatim>\<open>_load_config\<close> returns; its entries are constants.
\<close>

definition max_query_length :: nat where
  "max_query_length = 500"

definition dangerous :: "nat list" where
  "dangerous = [0x3C, 0x3E, 0x22, 0x27, 0x26, 0x3B, 0x7C, 0x60, 0x24]"

definition sanitize_query :: "pystr \<Rightarrow> pystr" where
  "sanitize_query query =
     (if query = [] then []
      else strip (foldl replace_char (take max_query_length query) dangerous))"

subsection \<open>Exceptions and results\<close>

text \<open>
  \<^verbatim>\<open>search\<close> catches every \<^verbatim>\<open>Exception\<close> raised inside its \<^verbatim>\<open>try\<close> block and later renders
  the last one with \<^verbatim>\<open>str\<close>. An exception is modelled by its class, as far as the model
  tells classes apart, and its message.
\<close>

datatype py_exn = TypeError string | ValueError string | Error string

fun str_of_exn :: "py_exn \<Rightarrow> string" where
  "str_of_exn (TypeError m) = m"
| "str_of_exn (ValueError m) = m"
| "str_of_exn (Error m) = m"

text \<open>\<^verbatim>\<open>str(last_error)\<close>, where \<^verbatim>\<open>last_error\<close> is \<^verbatim>\<open>None\<close> or an exception.\<close>

definition str_last_error :: "py_exn option \<Rightarrow> string" where
  "str_last_error e = (case e of None \<Rightarrow> ''None'' | Some x \<Rightarrow> str_of_exn x)"

text \<open>
  One result, as every adapter builds it: the four keys \<^verbatim>\<open>title\<close>, \<^verbatim>\<open>url\<close>, \<^verbatim>\<open>description\<close> and
  \<^verbatim>\<open>provider\<close>, always present.
\<close>

record result_item =
  title :: pystr
  url :: pystr
  description :: pystr
  item_provider :: string

text \<open>
  The dictionary \<^verbatim>\<open>search\<close> returns has one of three shapes; a key that a shape does not have
  is \<open>None\<close>.
\<close>

record reply =
  r_error :: "string option"
  r_results :: "result_item list"
  r_provider :: "string option"
  r_cached :: "bool option"
  r_query :: "pystr option"

subsection \<open>The state of a \<^verbatim>\<open>NovaSearch\<close> object\<close>

text \<open>
  A cache entry is written with four keys. The program reads \<^verbatim>\<open>results\<close> and \<^verbatim>\<open>provider\<close> by
  subscript and \<^verbatim>\<open>timestamp\<close> and \<^verbatim>\<open>type\<close> with \<^verbatim>\<open>get\<close> and a default, so the latter two may
  be absent in an entry loaded from the snapshot file.
\<close>

record cache_entry =
  e_results :: "result_item list"
  e_provider :: string
  e_timestamp :: "real option"
  e_type :: "string option"

record bucket =
  tokens :: real
  max_tokens :: real
  refill_rate :: real

record stats =
  errors :: int
  circuit_open :: bool
  circuit_open_time :: "real option"

text \<open>
  What the program does to the outside world, in order: \<open>Slept b\<close> is a call
  \<^verbatim>\<open>time.sleep(b)\<close>, and \<open>Called p q t\<close> is a call \<^verbatim>\<open>_search_with_provider(p, q, t)\<close>, which
  hands the query to the adapter of the provider \<open>p\<close>.
\<close>

datatype event = Slept real | Called string pystr string

text \<open>
  The fields of the object. The cache is a dictionary whose order matters (the sort of
  \<^verbatim>\<open>_evict_cache\<close> is stable), so it is an association list with distinct keys.
  \<^verbatim>\<open>_last_refill\<close> is an attribute that does not exist before the first rate-limit check:
  \<open>None\<close> stands for the missing attribute. \<open>ticks\<close> counts the clock readings taken so far and
  \<open>trace\<close> lists the events so far; both belong to the environment and are threaded with the
  object.
\<close>

record nova =
  cache :: "(string \<times> cache_entry) list"
  provider_stats :: "string \<rightharpoonup> stats"
  rate_limit :: "string \<rightharpoonup> bucket"
  last_refill :: "(string \<rightharpoonup> real) option"
  ticks :: nat
  trace :: "event list"

text \<open>
  The environment: the wall clock (\<open>clock env n\<close> is the value of the \<open>n\<close>-th reading of
  \<^verbatim>\<open>time.time()\<close>), the library functions the program calls, and the three provider adapters.
  An adapter is given the number of events before its call, so that its answer may change from
  call to call; it returns a list of results or raises.
\<close>

record env =
  clock :: "nat \<Rightarrow> real"
  md5_hexdigest :: "pystr \<Rightarrow> string"
  str_lower :: "pystr \<Rightarrow> pystr"
  str_format :: "string \<Rightarrow> int \<Rightarrow> py_exn + string"
  search_brave :: "nat \<Rightarrow> pystr \<Rightarrow> string \<Rightarrow> py_exn + result_item list"
  search_google :: "nat \<Rightarrow> pystr \<Rightarrow> string \<Rightarrow> py_exn + result_item list"
  search_duckduckgo :: "nat \<Rightarrow> pystr \<Rightarrow> string \<Rightarrow> py_exn + result_item list"

text \<open>
  A method that may call \<^verbatim>\<open>time.time()\<close> takes the reading as its argument \<open>now\<close>, and its
  caller takes the next reading from the clock before the call. Where the method returns without
  looking at the clock, that reading goes unused; since the clock is an arbitrary function, every
  sequence of readings the program can see is still the sequence of some clock.
\<close>

definition time_time :: "env \<Rightarrow> nova \<Rightarrow> real \<times> nova" where
  "time_time env s = (clock env (ticks s), s\<lparr>ticks := Suc (ticks s)\<rparr>)"

text \<open>
  \<^verbatim>\<open>__init__\<close>: the cache is what the snapshot file held (empty when there is none), no provider
  has statistics, and the buckets are full.
\<close>

definition init :: "(string \<times> cache_entry) list \<Rightarrow> nova" where
  "init disk_cache =
     \<lparr>cache = disk_cache,
      provider_stats = Map.empty,
      rate_limit =
        [''brave'' \<mapsto> \<lparr>tokens = 60, max_tokens = 60, refill_rate = 1\<rparr>,
         ''google'' \<mapsto> \<lparr>tokens = 60, max_tokens = 60, refill_rate = 1\<rparr>,
         ''duckduckgo'' \<mapsto> \<lparr>tokens = 30, max_tokens = 30, refill_rate = 1 / 2\<rparr>],
      last_refill = None,
      ticks = 0,
      trace = []\<rparr>"

subsection \<open>Rate limiter\<close>

text \<open>
  \<^verbatim>\<open>
  def _check_rate_limit(self, provider):
      if provider not in self.rate_limit:
          return True
      rl = self.rate_limit[provider]
      now = time.time()
      if hasattr(self, '_last_refill'):
          elapsed = now - self._last_refill.get(provider, now)
          rl['tokens'] = min(rl['max'], rl['tokens'] + elapsed * rl['refill_rate'])
      self._last_refill = getattr(self, '_last_refill', {})
      self._last_refill[provider] = now
      if rl['tokens'] >= 1:
          rl['tokens'] -= 1
          return True
      return False
  \<close>
  The clock reading is an argument: the caller takes it. \<open>refill\<close> is the bucket after the
  refill step.
\<close>

definition refill :: "real \<Rightarrow> string \<Rightarrow> (string \<rightharpoonup> real) option \<Rightarrow> bucket \<Rightarrow> bucket" where
  "refill now provider lr rl =
     (case lr of
        None \<Rightarrow> rl
      | Some m \<Rightarrow>
          let elapsed = now - (case m provider of None \<Rightarrow> now | Some t \<Rightarrow> t)
          in rl\<lparr>tokens := min (max_tokens rl) (tokens rl + elapsed * refill_rate rl)\<rparr>)"

definition check_rate_limit :: "real \<Rightarrow> string \<Rightarrow> nova \<Rightarrow> bool \<times> nova" where
  "check_rate_limit now provider s =
     (case rate_limit s provider of
        None \<Rightarrow> (True, s)
      | Some rl0 \<Rightarrow>
          let rl = refill now provider (last_refill s) rl0;
              lr = (case last_refill s of None \<Rightarrow> Map.empty | Some m \<Rightarrow> m)(provider \<mapsto> now)
          in if tokens rl \<ge> 1
             then (True, s\<lparr>rate_limit := (rate_limit s)(provider \<mapsto> rl\<lparr>tokens := tokens rl - 1\<rparr>),
                           last_refill := Some lr\<rparr>)
             else (False, s\<lparr>rate_limit := (rate_limit s)(provider \<mapsto> rl),
                            last_refill := Some lr\<rparr>))"

subsection \<open>Circuit breaker\<close>

text \<open>
  \<^verbatim>\<open>
  def _is_provider_healthy(self, provider):
      if provider not in self.provider_stats:
          return True
      stats = self.provider_stats[provider]
      if stats.get('circuit_open', False):
          if time.time() - stats.get('circuit_open_time', 0) > 60:
              stats['circuit_open'] = False
              return True
          return False
      return True

  def _record_provider_error(self, provider):
      if provider not in self.provider_stats:
          self.provider_stats[provider] = {'errors': 0, 'circuit_open': False}
      stats = self.provider_stats[provider]
      stats['errors'] = stats.get('errors', 0) + 1
      if stats['errors'] >= 5:
          stats['circuit_open'] = True
          stats['circuit_open_time'] = time.time()
  \<close>
\<close>

definition is_provider_healthy :: "real \<Rightarrow> string \<Rightarrow> nova \<Rightarrow> bool \<times> nova" where
  "is_provider_healthy now provider s =
     (case provider_stats s provider of
        None \<Rightarrow> (True, s)
      | Some st \<Rightarrow>
          if circuit_open st then
            if now - (case circuit_open_time st of None \<Rightarrow> 0 | Some t \<Rightarrow> t) > 60
            then (True, s\<lparr>provider_stats := (provider_stats s)(provider \<mapsto> st\<lparr>circuit_open := False\<rparr>)\<rparr>)
            else (False, s)
          else (True, s))"

definition record_provider_error :: "real \<Rightarrow> string \<Rightarrow> nova \<Rightarrow> nova" where
  "record_provider_error now provider s =
     (let st0 = (case provider_stats s provider of
                   None \<Rightarrow> \<lparr>errors = 0, circuit_open = False, circuit_open_time = None\<rparr>
                 | Some st \<Rightarrow> st);
          st1 = st0\<lparr>errors := errors st0 + 1\<rparr>;
          st2 = (if errors st1 \<ge> 5
                 then st1\<lparr>circuit_open := True, circuit_open_time := Some now\<rparr>
                 else st1)
      in s\<lparr>provider_stats := (provider_stats s)(provider \<mapsto> st2)\<rparr>)"

subsection \<open>Cache\<close>

text \<open>
  \<^verbatim>\<open>d[k] = v\<close> on a dictionary: an existing key keeps its place, a new key goes to the end.
\<close>

fun dict_set :: "'k \<Rightarrow> 'v \<Rightarrow> ('k \<times> 'v) list \<Rightarrow> ('k \<times> 'v) list" where
  "dict_set k v [] = [(k, v)]"
| "dict_set k v (x # xs) = (if fst x = k then (k, v) # xs else x # dict_set k v xs)"

definition timestamp_of :: "cache_entry \<Rightarrow> real" where
  "timestamp_of e = (case e_timestamp e of None \<Rightarrow> 0 | Some t \<Rightarrow> t)"

definition max_cache_size :: nat where
  "max_cache_size = 1000"

text \<open>
  \<^verbatim>\<open>
  def _evict_cache(self):
      if len(self.cache) > self.max_cache_size:
          sorted_cache = sorted(self.cache.items(),
                                key=lambda x: x[1].get('timestamp', 0), reverse=True)
          self.cache = dict(sorted_cache[:self.max_cache_size])
  \<close>
  \<^verbatim>\<open>sorted\<close> is stable, also with \<^verbatim>\<open>reverse=True\<close>: entries with equal timestamps keep their
  order. That is a stable ascending sort by the negated timestamp.
\<close>

definition evict_cache :: "nova \<Rightarrow> nova" where
  "evict_cache s =
     (if length (cache s) > max_cache_size
      then s\<lparr>cache := take max_cache_size (sort_key (\<lambda>x. - timestamp_of (snd x)) (cache s))\<rparr>
      else s)"

text \<open>
  \<^verbatim>\<open>
  def _get_cache_key(self, query, search_type='web'):
      key_str = f"{search_type}:{query.lower()}"
      return hashlib.md5(key_str.encode()).hexdigest()
  \<close>
\<close>

definition get_cache_key :: "env \<Rightarrow> pystr \<Rightarrow> string \<Rightarrow> string" where
  "get_cache_key env query search_type =
     md5_hexdigest env (pystr_of search_type @ pystr_of '':'' @ str_lower env query)"

definition trending_kw :: "pystr list" where
  "trending_kw = map pystr_of
     [''news'', ''today'', ''latest'', ''breaking'', ''update'', ''2024'', ''2025'', ''2026'']"

definition trans_kw :: "pystr list" where
  "trans_kw = map pystr_of
     [''buy'', ''price'', ''cost'', ''discount'', ''sale'', ''cheap'', ''shop'']"

definition detect_query_intent :: "env \<Rightarrow> pystr \<Rightarrow> string" where
  "detect_query_intent env query =
     (let query_lower = str_lower env query
      in if list_ex (\<lambda>kw. contains kw query_lower) trending_kw then ''trending''
         else if list_ex (\<lambda>kw. contains kw query_lower) trans_kw then ''transactional''
         else ''informational'')"

text \<open>The two tables of lifetimes, in seconds, each read with the default 86400.\<close>

definition intent_ttl :: "string \<Rightarrow> real" where
  "intent_ttl intent =
     (if intent = ''trending'' then 300
      else if intent = ''transactional'' then 1800
      else if intent = ''informational'' then 86400
      else 86400)"

definition cache_ttl :: "string \<Rightarrow> real" where
  "cache_ttl query_type =
     (if query_type = ''news'' then 900
      else if query_type = ''general'' then 86400
      else if query_type = ''trending'' then 300
      else if query_type = ''transactional'' then 1800
      else 86400)"

text \<open>
  \<^verbatim>\<open>
  def _is_cache_valid(self, cached, query=''):
      if not cached:
          return False
      age = time.time() - cached.get('timestamp', 0)
      query_type = cached.get('type', 'general')
      if query:
          ttl = intent_ttl.get(self._detect_query_intent(query), 86400)
      else:
          ttl = self.config['cache_ttl'].get(query_type, 86400)
      return age < ttl
  \<close>
  An entry with the keys \<^verbatim>\<open>results\<close> and \<^verbatim>\<open>provider\<close> is not an empty dictionary, so the first
  test never fires on a \<open>cache_entry\<close>.
\<close>

definition is_cache_valid :: "env \<Rightarrow> real \<Rightarrow> cache_entry \<Rightarrow> pystr \<Rightarrow> bool" where
  "is_cache_valid env now cached query =
     (let age = now - timestamp_of cached;
          query_type = (case e_type cached of None \<Rightarrow> ''general'' | Some t \<Rightarrow> t);
          ttl = (if query \<noteq> [] then intent_ttl (detect_query_intent env query)
                 else cache_ttl query_type)
      in age < ttl)"

subsection \<open>Provider order\<close>

text \<open>
  \<^verbatim>\<open>
  def _get_provider_order(self):
      primary = self.config['providers']['primary']
      fallback = self.config['providers']['fallback']
      healthy = [primary]
      for p in fallback:
          if self._is_provider_healthy(p):
              healthy.append(p)
      return healthy
  \<close>
\<close>

definition primary :: string where
  "primary = ''brave''"

definition fallback :: "string list" where
  "fallback = [''google'', ''duckduckgo'']"

fun healthy_of :: "env \<Rightarrow> string list \<Rightarrow> nova \<Rightarrow> string list \<times> nova" where
  "healthy_of env [] s = ([], s)"
| "healthy_of env (p # ps) s =
     (let (now, s1) = time_time env s;
          (ok, s2) = is_provider_healthy now p s1;
          (rest, s3) = healthy_of env ps s2
      in (if ok then p # rest else rest, s3))"

definition get_provider_order :: "env \<Rightarrow> nova \<Rightarrow> string list \<times> nova" where
  "get_provider_order env s = (let (hs, s') = healthy_of env fallback s in (primary # hs, s'))"

subsection \<open>Backoff\<close>

text \<open>
  \<^verbatim>\<open>
  backoff = (2 ** attempt) + (hashlib.md5(query.encode()).hexdigest()[0:2] % 10) / 10
  \<close>
  The left operand of \<^verbatim>\<open>%\<close> is a \<^verbatim>\<open>str\<close>, so \<^verbatim>\<open>%\<close> is printf-style formatting, not the
  remainder. A format string without a conversion specifier that is given an argument raises
  \<^verbatim>\<open>TypeError\<close>; with a specifier the library formats (or raises), and the result is a \<^verbatim>\<open>str\<close>
  again. A \<^verbatim>\<open>str\<close> has no division, so \<^verbatim>\<open>/\<close> raises \<^verbatim>\<open>TypeError\<close> on whatever \<^verbatim>\<open>%\<close> returned.
\<close>

definition str_mod :: "env \<Rightarrow> string \<Rightarrow> int \<Rightarrow> py_exn + string" where
  "str_mod env fmt arg =
     (if CHR ''%'' \<in> set fmt then str_format env fmt arg
      else Inl (TypeError ''not all arguments converted during string formatting''))"

definition str_truediv :: "string \<Rightarrow> int \<Rightarrow> py_exn + real" where
  "str_truediv s n =
     Inl (TypeError (''unsupported operand type(s) for /: 'str' and 'int'' @ [CHR 0x27]))"

definition backoff :: "env \<Rightarrow> nat \<Rightarrow> pystr \<Rightarrow> py_exn + real" where
  "backoff env attempt query =
     (case str_mod env (take 2 (md5_hexdigest env query)) 10 of
        Inl e \<Rightarrow> Inl e
      | Inr s \<Rightarrow>
          (case str_truediv s 10 of
             Inl e \<Rightarrow> Inl e
           | Inr jitter \<Rightarrow> Inr (2 ^ attempt + jitter)))"

subsection \<open>Search\<close>

text \<open>
  \<^verbatim>\<open>
  def _search_with_provider(self, provider, query, search_type):
      if provider == 'brave':
          return self._search_brave(query, search_type)
      elif provider == 'google':
          return self._search_google(query, search_type)
      elif provider == 'duckduckgo':
          return self._search_duckduckgo(query, search_type)
      else:
          raise Exception(f"Unknown provider: {provider}")
  \<close>
\<close>

definition search_with_provider ::
  "env \<Rightarrow> nat \<Rightarrow> string \<Rightarrow> pystr \<Rightarrow> string \<Rightarrow> py_exn + result_item list" where
  "search_with_provider env n provider query search_type =
     (if provider = ''brave'' then search_brave env n query search_type
      else if provider = ''google'' then search_google env n query search_type
      else if provider = ''duckduckgo'' then search_duckduckgo env n query search_type
      else Inl (Error (''Unknown provider: '' @ provider)))"

text \<open>
  The body of the inner loop of \<^verbatim>\<open>search\<close>, for one provider \<open>p\<close> in round \<open>attempt\<close>:
  \<^verbatim>\<open>
  if not self._check_rate_limit(p):
      continue
  try:
      if attempt > 0:
          backoff = ...
          time.sleep(backoff)
      result = self._search_with_provider(p, query, search_type)
      if result.get('results'):
          self.cache[cache_key] = {'results': result['results'], 'provider': p,
                                   'timestamp': time.time(), 'type': search_type}
          self._evict_cache()
          self._save_cache_to_disk()
          return {'results': result['results'], 'provider': p, 'cached': False, 'query': query}
  except Exception as e:
      last_error = e
      self._record_provider_error(p)
      continue
  \<close>
  It either returns from \<^verbatim>\<open>search\<close> or goes on to the next provider with a value of
  \<^verbatim>\<open>last_error\<close>. \<^verbatim>\<open>_save_cache_to_disk\<close> swallows every exception and changes no field, so it
  has no counterpart here.
\<close>

datatype outcome = Return reply | Next "py_exn option"

definition on_exception :: "env \<Rightarrow> string \<Rightarrow> py_exn \<Rightarrow> nova \<Rightarrow> outcome \<times> nova" where
  "on_exception env p e s =
     (let (now, s1) = time_time env s in (Next (Some e), record_provider_error now p s1))"

definition store_result ::
  "env \<Rightarrow> pystr \<Rightarrow> string \<Rightarrow> string \<Rightarrow> string \<Rightarrow> result_item list \<Rightarrow> nova \<Rightarrow> outcome \<times> nova" where
  "store_result env query search_type cache_key p rs s =
     (let (now, s1) = time_time env s;
          entry = \<lparr>e_results = rs, e_provider = p, e_timestamp = Some now,
                   e_type = Some search_type\<rparr>;
          s2 = evict_cache (s1\<lparr>cache := dict_set cache_key entry (cache s1)\<rparr>)
      in (Return \<lparr>r_error = None, r_results = rs, r_provider = Some p, r_cached = Some False,
                  r_query = Some query\<rparr>, s2))"

definition call_adapter ::
  "env \<Rightarrow> pystr \<Rightarrow> string \<Rightarrow> string \<Rightarrow> string \<Rightarrow> py_exn option \<Rightarrow> nova \<Rightarrow> outcome \<times> nova" where
  "call_adapter env query search_type cache_key p last_error s =
     (let s1 = s\<lparr>trace := trace s @ [Called p query search_type]\<rparr>
      in case search_with_provider env (length (trace s)) p query search_type of
           Inl e \<Rightarrow> on_exception env p e s1
         | Inr rs \<Rightarrow>
             if rs \<noteq> [] then store_result env query search_type cache_key p rs s1
             else (Next last_error, s1))"

definition try_provider ::
  "env \<Rightarrow> pystr \<Rightarrow> string \<Rightarrow> string \<Rightarrow> nat \<Rightarrow> string \<Rightarrow> py_exn option \<Rightarrow> nova \<Rightarrow> outcome \<times> nova" where
  "try_provider env query search_type cache_key attempt p last_error s =
     (let (now, s1) = time_time env s;
          (granted, s2) = check_rate_limit now p s1
      in if \<not> granted then (Next last_error, s2)
         else if attempt > 0 then
           (case backoff env attempt query of
              Inl e \<Rightarrow> on_exception env p e s2
            | Inr b \<Rightarrow>
                call_adapter env query search_type cache_key p last_error
                  (s2\<lparr>trace := trace s2 @ [Slept b]\<rparr>))
         else call_adapter env query search_type cache_key p last_error s2)"

text \<open>The inner loop \<^verbatim>\<open>for p in providers\<close> and the outer loop \<^verbatim>\<open>for attempt in range(3)\<close>.\<close>

fun try_providers ::
  "env \<Rightarrow> pystr \<Rightarrow> string \<Rightarrow> string \<Rightarrow> nat \<Rightarrow> string list \<Rightarrow> py_exn option \<Rightarrow> nova \<Rightarrow> outcome \<times> nova" where
  "try_providers env query search_type cache_key attempt [] last_error s = (Next last_error, s)"
| "try_providers env query search_type cache_key attempt (p # ps) last_error s =
     (case try_provider env query search_type cache_key attempt p last_error s of
        (Return r, s') \<Rightarrow> (Return r, s')
      | (Next e, s') \<Rightarrow> try_providers env query search_type cache_key attempt ps e s')"

fun attempts ::
  "env \<Rightarrow> pystr \<Rightarrow> string \<Rightarrow> string \<Rightarrow> string list \<Rightarrow> nat list \<Rightarrow> py_exn option \<Rightarrow> nova \<Rightarrow> outcome \<times> nova" where
  "attempts env query search_type cache_key providers [] last_error s = (Next last_error, s)"
| "attempts env query search_type cache_key providers (attempt # rest) last_error s =
     (case try_providers env query search_type cache_key attempt providers last_error s of
        (Return r, s') \<Rightarrow> (Return r, s')
      | (Next e, s') \<Rightarrow> attempts env query search_type cache_key providers rest e s')"

text \<open>
  \<^verbatim>\<open>
  def search(self, query, search_type='web', provider=None):
      query = self._sanitize_query(query)
      if not query:
          return {'error': 'Empty query', 'results': []}
      cache_key = self._get_cache_key(query, search_type)
      if cache_key in self.cache and self._is_cache_valid(self.cache[cache_key], query):
          return {'results': self.cache[cache_key]['results'],
                  'provider': self.cache[cache_key]['provider'],
                  'cached': True, 'query': query}
      providers = [provider] if provider else self._get_provider_order()
      last_error = None
      for attempt in range(3):
          for p in providers:
              ...
      return {'error': str(last_error), 'query': query, 'results': []}
  \<close>
  \<open>provider\<close> is \<open>None\<close> for Python's \<^verbatim>\<open>None\<close>; the empty string is falsy as well.
\<close>

definition search_providers ::
  "env \<Rightarrow> pystr \<Rightarrow> string \<Rightarrow> string \<Rightarrow> string option \<Rightarrow> nova \<Rightarrow> reply \<times> nova" where
  "search_providers env query search_type cache_key provider s =
     (let (providers, s1) =
            (case provider of
               None \<Rightarrow> get_provider_order env s
             | Some p \<Rightarrow> if p \<noteq> [] then ([p], s) else get_provider_order env s)
      in case attempts env query search_type cache_key providers [0, 1, 2] None s1 of
           (Return r, s') \<Rightarrow> (r, s')
         | (Next last_error, s') \<Rightarrow>
             (\<lparr>r_error = Some (str_last_error last_error), r_results = [], r_provider = None,
               r_cached = None, r_query = Some query\<rparr>, s'))"

definition search :: "env \<Rightarrow> pystr \<Rightarrow> string \<Rightarrow> string option \<Rightarrow> nova \<Rightarrow> reply \<times> nova" where
  "search env raw search_type provider s =
     (let query = sanitize_query raw
      in if query = [] then
           (\<lparr>r_error = Some ''Empty query'', r_results = [], r_provider = None, r_cached = None,
             r_query = None\<rparr>, s)
         else
           let cache_key = get_cache_key env query search_type
           in case map_of (cache s) cache_key of
                None \<Rightarrow> search_providers env query search_type cache_key provider s
              | Some cached \<Rightarrow>
                  let (now, s1) = time_time env s
                  in if is_cache_valid env now cached query
                     then (\<lparr>r_error = None, r_results = e_results cached,
                            r_provider = Some (e_provider cached), r_cached = Some True,
                            r_query = Some query\<rparr>, s1)
                     else search_providers env query search_type cache_key provider s1)"

subsection \<open>Runs and concrete inputs\<close>

text \<open>Recording one error for a provider at each of the given clock readings.\<close>

definition record_errors :: "real list \<Rightarrow> string \<Rightarrow> nova \<Rightarrow> nova" where
  "record_errors ts p s = foldl (\<lambda>s t. record_provider_error t p s) s ts"

text \<open>A sequence of rate-limit checks, each with its clock reading and its provider.\<close>

fun acquire_all :: "(real \<times> string) list \<Rightarrow> nova \<Rightarrow> nova" where
  "acquire_all [] s = s"
| "acquire_all ((now, p) # calls) s = acquire_all calls (snd (check_rate_limit now p s))"

text \<open>
  An environment for the examples: the clock advances by one second per reading, the digests
  are the MD5 digests of the strings the examples hash, lowercasing leaves the (lowercase)
  example queries alone, Google has no credentials and DuckDuckGo finds nothing. The Brave
  adapter is the argument.
\<close>

definition env0 :: "(nat \<Rightarrow> pystr \<Rightarrow> string \<Rightarrow> py_exn + result_item list) \<Rightarrow> env" where
  "env0 brave =
     \<lparr>clock = (\<lambda>n. real n),
      md5_hexdigest =
        (\<lambda>s. if s = pystr_of ''python'' then ''23eeeb4347bdd26bfc6b7ee9a3b755dd''
             else if s = pystr_of ''web:python'' then ''c9cb85f988d20fafb345a7594e779363''
             else ''d41d8cd98f00b204e9800998ecf8427e''),
      str_lower = (\<lambda>s. s),
      str_format = (\<lambda>fmt arg. Inl (ValueError ''incomplete format'')),
      search_brave = brave,
      search_google = (\<lambda>n q t. Inl (Error ''Google API key or CSE ID not configured'')),
      search_duckduckgo = (\<lambda>n q t. Inr [])\<rparr>"

definition item0 :: result_item where
  "item0 =
     \<lparr>title = pystr_of ''Python'',
      url = pystr_of ''https://example.com/page?utm_source=newsletter&id=7'',
      description = pystr_of ''A language'',
      item_provider = ''brave''\<rparr>"

text \<open>A fresh object whose Brave bucket has been used up.\<close>

definition drained :: nova where
  "drained =
     (init [])\<lparr>rate_limit :=
        (rate_limit (init []))(''brave'' \<mapsto> \<lparr>tokens = 0, max_tokens = 60, refill_rate = 1\<rparr>)\<rparr>"

text \<open>A cache of 1001 entries with distinct keys, the entry \<open>i\<close> stored at the reading \<open>i\<close>.\<close>

definition entry_at :: "nat \<Rightarrow> string \<times> cache_entry" where
  "entry_at i =
     (replicate i CHR ''k'',
      \<lparr>e_results = [item0], e_provider = ''brave'', e_timestamp = Some (real i),
        e_type = Some ''web''\<rparr>)"

definition full_cache :: "(string \<times> cache_entry) list" where
  "full_cache = map entry_at [0..<1001]"

text \<open>A fresh object after four recorded errors for Brave.\<close>

definition four_errors :: nova where
  "four_errors = record_errors [1, 2, 3, 4] ''brave'' (init [])"

text \<open>The number of errors recorded for a provider: zero when it has no statistics.\<close>

definition errors_of :: "nova \<Rightarrow> string \<Rightarrow> int" where
  "errors_of s p = (case provider_stats s p of None \<Rightarrow> 0 | Some st \<Rightarrow> errors st)"

text \<open>
  The invariant of the rate limiter: every bucket holds between zero and its capacity, no
  refill rate is negative, and no provider was last refilled after the reading \<open>t0\<close>.
\<close>

definition limiter_ok :: "real \<Rightarrow> nova \<Rightarrow> bool" where
  "limiter_ok t0 s \<longleftrightarrow>
     (\<forall>p b. rate_limit s p = Some b \<longrightarrow>
        0 \<le> tokens b \<and> tokens b \<le> max_tokens b \<and> 0 \<le> refill_rate b) \<and>
     (\<forall>m p t. last_refill s = Some m \<longrightarrow> m p = Some t \<longrightarrow> t \<le> t0)"

subsection \<open>Properties of the sanitizer\<close>

lemma foldl_replace_char: "foldl replace_char s cs = filter (\<lambda>x. x \<notin> set cs) s"
proof (induction cs arbitrary: s)
  case Nil
  show ?case by simp
next
  case (Cons c cs)
  have "foldl replace_char s (c # cs) = foldl replace_char (replace_char s c) cs"
    by simp
  also have "\<dots> = filter (\<lambda>x. x \<notin> set cs) (replace_char s c)"
    by (rule Cons.IH)
  also have "\<dots> = filter (\<lambda>x. x \<notin> set (c # cs)) s"
    unfolding replace_char_def filter_filter by (rule filter_cong) auto
  finally show ?case .
qed

lemma strip_subset: "set (strip s) \<subseteq> set s"
proof -
  have "set (strip s) = set (dropWhile isspace (rev (dropWhile isspace s)))"
    by (simp add: strip_def)
  also have "\<dots> \<subseteq> set (rev (dropWhile isspace s))"
    by (rule set_dropWhileD [THEN subsetI])
  also have "\<dots> \<subseteq> set s"
    using set_dropWhileD by fastforce
  finally show ?thesis .
qed

lemma length_strip: "length (strip s) \<le> length s"
proof -
  have "length (strip s) = length (dropWhile isspace (rev (dropWhile isspace s)))"
    by (simp add: strip_def)
  also have "\<dots> \<le> length (rev (dropWhile isspace s))"
    by (rule length_dropWhile_le)
  also have "\<dots> = length (dropWhile isspace s)"
    by simp
  also have "\<dots> \<le> length s"
    by (rule length_dropWhile_le)
  finally show ?thesis .
qed

lemma dropWhile_idle: "xs = [] \<or> \<not> P (hd xs) \<Longrightarrow> dropWhile P xs = xs"
  by (cases xs) auto

lemma hd_dropWhile_or_empty: "dropWhile P xs = [] \<or> \<not> P (hd (dropWhile P xs))"
  using hd_dropWhile by blast

lemma strip_ends:
  "strip s = [] \<or> (\<not> isspace (hd (strip s)) \<and> \<not> isspace (last (strip s)))"
proof (cases "strip s = []")
  case True
  then show ?thesis by simp
next
  case False
  define a where "a = dropWhile isspace s"
  define b where "b = dropWhile isspace (rev a)"
  have sb: "strip s = rev b" by (simp add: strip_def a_def b_def)
  from False sb have bne: "b \<noteq> []" by simp
  then have hb: "\<not> isspace (hd b)" unfolding b_def by (rule hd_dropWhile)
  from bne have rane: "rev a \<noteq> []" by (auto simp: b_def)
  then have ane: "a \<noteq> []" by simp
  then have ha: "\<not> isspace (hd a)" unfolding a_def by (rule hd_dropWhile)
  obtain pre where pre: "rev a = pre @ b"
    unfolding b_def by (metis takeWhile_dropWhile_id)
  then have "a = rev b @ rev pre" by (metis rev_append rev_rev_ident)
  with bne have "hd a = hd (rev b)" by simp
  with ha have "\<not> isspace (hd (strip s))" by (simp add: sb)
  moreover from hb bne have "\<not> isspace (last (strip s))"
    by (simp add: sb last_rev)
  ultimately show ?thesis by simp
qed

lemma strip_fixed:
  assumes "s = [] \<or> (\<not> isspace (hd s) \<and> \<not> isspace (last s))"
  shows "strip s = s"
proof (cases "s = []")
  case True
  then show ?thesis by (simp add: strip_def)
next
  case False
  with assms have h: "\<not> isspace (hd s)" and l: "\<not> isspace (last s)" by auto
  from False h have "dropWhile isspace s = s" by (simp add: dropWhile_idle)
  moreover from False l have "dropWhile isspace (rev s) = rev s"
    by (simp add: dropWhile_idle hd_rev)
  ultimately show ?thesis by (simp add: strip_def)
qed

lemma strip_strip: "strip (strip s) = strip s"
  by (rule strip_fixed) (rule strip_ends)

lemma sanitize_query_clean: "set (sanitize_query q) \<inter> set dangerous = {}"
proof (cases "q = []")
  case True
  then show ?thesis by (simp add: sanitize_query_def)
next
  case False
  have "set (sanitize_query q) \<subseteq> set (filter (\<lambda>x. x \<notin> set dangerous) (take max_query_length q))"
    using False strip_subset [of "filter (\<lambda>x. x \<notin> set dangerous) (take max_query_length q)"]
    by (simp add: sanitize_query_def foldl_replace_char)
  then show ?thesis by auto
qed

lemma length_sanitize_query: "length (sanitize_query q) \<le> max_query_length"
proof (cases "q = []")
  case True
  then show ?thesis by (simp add: sanitize_query_def)
next
  case False
  have "length (sanitize_query q)
          \<le> length (filter (\<lambda>x. x \<notin> set dangerous) (take max_query_length q))"
    using False length_strip [of "filter (\<lambda>x. x \<notin> set dangerous) (take max_query_length q)"]
    by (simp add: sanitize_query_def foldl_replace_char)
  also have "\<dots> \<le> length (take max_query_length q)"
    by (rule length_filter_le)
  also have "\<dots> \<le> max_query_length" by simp
  finally show ?thesis .
qed

text \<open>
  Claim C7. The query sanitizer is idempotent: for every string \<open>q\<close>, sanitizing the sanitized
  query gives the sanitized query again.
\<close>

theorem sanitize_query_idempotent: "sanitize_query (sanitize_query q) = sanitize_query q"
proof (cases "sanitize_query q = []")
  case True
  then show ?thesis by (simp add: sanitize_query_def)
next
  case False
  define s where "s = sanitize_query q"
  from False have qne: "q \<noteq> []" by (auto simp: sanitize_query_def)
  have t: "take max_query_length s = s"
    using length_sanitize_query [of q] by (simp add: s_def)
  have "\<forall>x \<in> set s. x \<notin> set dangerous"
    using sanitize_query_clean [of q] by (auto simp: s_def)
  then have f: "filter (\<lambda>x. x \<notin> set dangerous) s = s"
    by (simp add: filter_id_conv)
  have "s = strip (foldl replace_char (take max_query_length q) dangerous)"
    using qne by (simp add: s_def sanitize_query_def)
  then have st: "strip s = s" by (metis strip_strip)
  from False have "sanitize_query s = strip (foldl replace_char (take max_query_length s) dangerous)"
    by (simp add: sanitize_query_def s_def)
  also have "\<dots> = s" by (simp add: t foldl_replace_char f st)
  finally show ?thesis by (simp add: s_def)
qed

subsection \<open>Empty queries\<close>

lemma sanitize_query_blank:
  assumes "\<forall>c \<in> set q. isspace c \<or> c \<in> set dangerous"
  shows "sanitize_query q = []"
proof (cases "q = []")
  case True
  then show ?thesis by (simp add: sanitize_query_def)
next
  case False
  define r where "r = filter (\<lambda>x. x \<notin> set dangerous) (take max_query_length q)"
  have "\<forall>c \<in> set r. isspace c"
    using assms by (auto simp: r_def dest: in_set_takeD)
  then have d: "dropWhile isspace r = []" by (induction r) auto
  have "strip r = []" unfolding strip_def d by simp
  with False show ?thesis by (simp add: sanitize_query_def foldl_replace_char r_def)
qed

text \<open>
  Claim C8. When the sanitized query is empty, \<^verbatim>\<open>search\<close> returns the dictionary with the
  error \<^verbatim>\<open>Empty query\<close> and no results, and nothing else happens: the object is unchanged (no
  cache entry, bucket or breaker statistic is written), no clock reading is taken, no event is
  added to the trace (no adapter is invoked), and the answer depends on neither the object nor
  the environment. By \<open>sanitize_query_blank\<close> that is the case for every input made of
  whitespace and removed characters only.
\<close>

theorem search_empty_query:
  assumes "sanitize_query raw = []"
  shows "search env raw search_type provider s =
           (\<lparr>r_error = Some ''Empty query'', r_results = [], r_provider = None, r_cached = None,
             r_query = None\<rparr>, s)"
  using assms by (simp add: search_def)

theorem search_empty_query_witness:
  "sanitize_query (pystr_of '' <$> '') = [] \<and>
   search (env0 (\<lambda>n q t. Inr [item0])) (pystr_of '' <$> '') ''web'' None (init []) =
     (\<lparr>r_error = Some ''Empty query'', r_results = [], r_provider = None, r_cached = None,
       r_query = None\<rparr>, init [])"
proof -
  have h: "sanitize_query (pystr_of '' <$> '') = []"
    by code_simp
  show ?thesis
    using h search_empty_query [OF h, of "env0 (\<lambda>n q t. Inr [item0])" "''web''" None "init []"]
    by simp
qed

subsection \<open>Rate-limit denials\<close>

text \<open>
  Claim C9. When the rate limiter denies a provider, the loop body does nothing but that check:
  it goes on to the next provider with \<^verbatim>\<open>last_error\<close> as it was, the provider statistics (the
  error counts of the circuit breaker), the cache and the trace are unchanged, and the rest of the
  round runs as if the provider were not in the list.
\<close>

theorem rate_limit_denial_skips_provider:
  assumes "\<not> fst (check_rate_limit (fst (time_time env s)) p (snd (time_time env s)))"
  defines "s' \<equiv> snd (check_rate_limit (fst (time_time env s)) p (snd (time_time env s)))"
  shows "try_provider env query search_type cache_key attempt p last_error s = (Next last_error, s')
       \<and> provider_stats s' = provider_stats s \<and> cache s' = cache s \<and> trace s' = trace s
       \<and> try_providers env query search_type cache_key attempt (p # ps) last_error s =
           try_providers env query search_type cache_key attempt ps last_error s'"
proof -
  have a: "try_provider env query search_type cache_key attempt p last_error s = (Next last_error, s')"
    using assms(1) by (simp add: try_provider_def s'_def Let_def case_prod_beta)
  have b: "provider_stats s' = provider_stats s \<and> cache s' = cache s \<and> trace s' = trace s"
    by (simp add: s'_def check_rate_limit_def time_time_def Let_def split: option.splits)
  from a b show ?thesis by simp
qed

theorem rate_limit_denial_skips_provider_witness:
  "\<not> fst (check_rate_limit (fst (time_time (env0 (\<lambda>n q t. Inr [item0])) drained)) ''brave''
           (snd (time_time (env0 (\<lambda>n q t. Inr [item0])) drained))) \<and>
   fst (try_provider (env0 (\<lambda>n q t. Inr [item0])) (pystr_of ''python'') ''web''
          ''c9cb85f988d20fafb345a7594e779363'' 0 ''brave'' None drained) = Next None \<and>
   provider_stats (snd (try_provider (env0 (\<lambda>n q t. Inr [item0])) (pystr_of ''python'') ''web''
          ''c9cb85f988d20fafb345a7594e779363'' 0 ''brave'' None drained)) = provider_stats drained"
proof -
  have h: "\<not> fst (check_rate_limit (fst (time_time (env0 (\<lambda>n q t. Inr [item0])) drained)) ''brave''
           (snd (time_time (env0 (\<lambda>n q t. Inr [item0])) drained)))"
    by (simp add: check_rate_limit_def time_time_def drained_def init_def refill_def env0_def)
  show ?thesis
    using h rate_limit_denial_skips_provider [OF h, of "pystr_of ''python''" "''web''"
        "''c9cb85f988d20fafb345a7594e779363''" 0 None "[]"]
    by simp
qed

subsection \<open>Circuit breaker\<close>

lemma record_errors_snoc:
  "record_errors (ts @ [t]) p s = record_provider_error t p (record_errors ts p s)"
  by (simp add: record_errors_def)

lemma errors_of_record: "errors_of (record_provider_error t p s) p = errors_of s p + 1"
  by (simp add: errors_of_def record_provider_error_def Let_def split: option.splits)

lemma errors_of_record_errors:
  "errors_of (record_errors ts p s) p = errors_of s p + int (length ts)"
proof (induction ts rule: rev_induct)
  case Nil
  show ?case by (simp add: record_errors_def)
next
  case (snoc t ts)
  then show ?case by (simp add: record_errors_snoc errors_of_record)
qed

lemma record_opens:
  assumes "4 \<le> errors_of s p"
  shows "\<exists>st. provider_stats (record_provider_error t p s) p = Some st \<and> circuit_open st
           \<and> circuit_open_time st = Some t \<and> errors st = errors_of s p + 1"
  using assms by (simp add: errors_of_def record_provider_error_def Let_def split: option.splits)

text \<open>
  Claim C4. Take any provider whose error count is not negative (every count the program
  writes is positive) and record five errors for it, the last one at the reading \<open>last ts\<close>.
  The count has grown by five and the circuit is open since \<open>last ts\<close>: a health check at a
  reading \<open>now\<close> at most 60 seconds later answers false and changes nothing. A health check
  more than 60 seconds later answers true and only resets the \<^verbatim>\<open>circuit_open\<close> flag: no error
  is recorded and the error count is the same.
\<close>

theorem breaker_opens_then_heals:
  assumes "length ts = 5" and "0 \<le> errors_of s p"
  defines "s5 \<equiv> record_errors ts p s"
  shows "errors_of s5 p = errors_of s p + 5 \<and>
         (now - last ts \<le> 60 \<longrightarrow> is_provider_healthy now p s5 = (False, s5)) \<and>
         (now - last ts > 60 \<longrightarrow>
            fst (is_provider_healthy now p s5) \<and>
            errors_of (snd (is_provider_healthy now p s5)) p = errors_of s5 p \<and>
            (\<exists>st. provider_stats s5 p = Some st \<and>
                  snd (is_provider_healthy now p s5) =
                    s5\<lparr>provider_stats := (provider_stats s5)(p \<mapsto> st\<lparr>circuit_open := False\<rparr>)\<rparr>))"
proof -
  from assms(1) obtain us t where ts: "ts = us @ [t]" and lus: "length us = 4"
    by (cases ts rule: rev_cases) auto
  have "errors_of (record_errors us p s) p = errors_of s p + 4"
    using lus by (simp add: errors_of_record_errors)
  with assms(2) have "4 \<le> errors_of (record_errors us p s) p" by simp
  from record_opens [OF this, of t] obtain st where
    st: "provider_stats s5 p = Some st" "circuit_open st" "circuit_open_time st = Some t"
    by (auto simp: s5_def ts record_errors_snoc)
  have e: "errors_of s5 p = errors_of s p + 5"
    using assms(1) by (simp add: s5_def errors_of_record_errors)
  have l: "last ts = t" by (simp add: ts)
  show ?thesis
    using st e by (simp add: is_provider_healthy_def l errors_of_def)
qed

theorem breaker_opens_then_heals_witness:
  "length [1, 2, 3, 4, 5 :: real] = 5 \<and> 0 \<le> errors_of (init []) ''google'' \<and>
   errors_of (record_errors [1, 2, 3, 4, 5] ''google'' (init [])) ''google'' = 5 \<and>
   is_provider_healthy 65 ''google'' (record_errors [1, 2, 3, 4, 5] ''google'' (init []))
     = (False, record_errors [1, 2, 3, 4, 5] ''google'' (init [])) \<and>
   fst (is_provider_healthy 66 ''google'' (record_errors [1, 2, 3, 4, 5] ''google'' (init []))) \<and>
   errors_of (snd (is_provider_healthy 66 ''google''
                (record_errors [1, 2, 3, 4, 5] ''google'' (init [])))) ''google'' = 5"
proof -
  have h1: "length [1, 2, 3, 4, 5 :: real] = 5" by simp
  have h2: "0 \<le> errors_of (init []) ''google''" by (simp add: errors_of_def init_def)
  have z: "errors_of (init []) ''google'' = 0" by (simp add: errors_of_def init_def)
  show ?thesis
    using h1 h2 z
      breaker_opens_then_heals [OF h1 h2, of 65]
      breaker_opens_then_heals [OF h1 h2, of 66]
    by simp
qed

subsection \<open>Rate limiter\<close>


lemma limiter_ok_init: "limiter_ok t0 (init c)"
  by (simp add: limiter_ok_def init_def)

lemma limiter_ok_mono: "limiter_ok t0 s \<Longrightarrow> t0 \<le> t1 \<Longrightarrow> limiter_ok t1 s"
  unfolding limiter_ok_def by (meson order_trans)

lemma refill_fields:
  "refill now p lr b = b\<lparr>tokens := tokens (refill now p lr b)\<rparr>"
  by (simp add: refill_def Let_def split: option.splits)

lemma refill_tokens_update:
  "(refill now p lr b)\<lparr>tokens := x\<rparr> = b\<lparr>tokens := x\<rparr>"
  by (simp add: refill_def Let_def split: option.splits)

lemma refill_bounds:
  assumes "tokens b \<le> max_tokens b" and "0 \<le> refill_rate b"
      and "\<forall>m t. lr = Some m \<longrightarrow> m p = Some t \<longrightarrow> t \<le> now"
  shows "tokens b \<le> tokens (refill now p lr b) \<and> tokens (refill now p lr b) \<le> max_tokens b"
proof (cases lr)
  case None
  with assms show ?thesis by (simp add: refill_def)
next
  case (Some m)
  define elapsed where "elapsed = now - (case m p of None \<Rightarrow> now | Some t \<Rightarrow> t)"
  have "0 \<le> elapsed"
    using assms(3) Some by (simp add: elapsed_def split: option.splits)
  with assms(2) have "0 \<le> elapsed * refill_rate b" by simp
  with assms(1) show ?thesis
    by (simp add: refill_def Some elapsed_def [symmetric])
qed

lemma check_rate_limit_result:
  fixes now :: real
  assumes "rate_limit s p = Some b"
  defines "r \<equiv> tokens (refill now p (last_refill s) b)"
  shows "(fst (check_rate_limit now p s) \<longleftrightarrow> 1 \<le> r) \<and>
         rate_limit (snd (check_rate_limit now p s)) p
           = Some (b\<lparr>tokens := (if 1 \<le> r then r - 1 else r)\<rparr>)"
proof -
  have "refill now p (last_refill s) b = b\<lparr>tokens := r\<rparr>"
    unfolding r_def by (rule refill_fields)
  then show ?thesis
    using assms(1)
    by (simp add: check_rate_limit_def Let_def r_def [symmetric] refill_tokens_update)
qed

lemma check_rate_limit_other:
  "q \<noteq> p \<Longrightarrow> rate_limit (snd (check_rate_limit now p s)) q = rate_limit s q"
  by (simp add: check_rate_limit_def Let_def split: option.splits)

lemma check_rate_limit_last_refill:
  "last_refill (snd (check_rate_limit now p s)) = Some m \<Longrightarrow> m q = Some t \<Longrightarrow>
   t = now \<or> (\<exists>m'. last_refill s = Some m' \<and> m' q = Some t)"
  by (auto simp: check_rate_limit_def Let_def split: option.splits if_splits)

lemma check_rate_limit_ok:
  assumes ok: "limiter_ok t0 s" and le: "t0 \<le> now"
  shows "limiter_ok now (snd (check_rate_limit now p s))"
proof -
  let ?s' = "snd (check_rate_limit now p s)"
  have buckets: "0 \<le> tokens b' \<and> tokens b' \<le> max_tokens b' \<and> 0 \<le> refill_rate b'"
    if b': "rate_limit ?s' q = Some b'" for q b'
  proof (cases "q = p")
    case False
    with b' have "rate_limit s q = Some b'" by (simp add: check_rate_limit_other)
    with ok show ?thesis unfolding limiter_ok_def by blast
  next
    case True
    show ?thesis
    proof (cases "rate_limit s p")
      case None
      then have "?s' = s" by (simp add: check_rate_limit_def)
      with b' True None show ?thesis by simp
    next
      case (Some b)
      from ok Some have b: "0 \<le> tokens b" "tokens b \<le> max_tokens b" "0 \<le> refill_rate b"
        unfolding limiter_ok_def by blast+
      have past: "\<forall>m t. last_refill s = Some m \<longrightarrow> m p = Some t \<longrightarrow> t \<le> now"
        using ok le unfolding limiter_ok_def by (meson order_trans)
      define r where "r = tokens (refill now p (last_refill s) b)"
      from refill_bounds [OF b(2) b(3) past] have r: "tokens b \<le> r" "r \<le> max_tokens b"
        by (simp_all add: r_def)
      have "rate_limit ?s' p = Some (b\<lparr>tokens := (if 1 \<le> r then r - 1 else r)\<rparr>)"
        using check_rate_limit_result [OF Some, of now] unfolding r_def by blast
      with b' True have "b' = b\<lparr>tokens := (if 1 \<le> r then r - 1 else r)\<rparr>" by simp
      with b r show ?thesis by auto
    qed
  qed
  have times: "t \<le> now" if "last_refill ?s' = Some m" "m q = Some t" for m q t
    using check_rate_limit_last_refill [OF that] ok le unfolding limiter_ok_def
    by (meson order_refl order_trans)
  from buckets times show ?thesis unfolding limiter_ok_def by blast
qed

lemma acquire_all_ok:
  assumes "limiter_ok t0 s" and "sorted (t0 # map fst calls)"
  shows "limiter_ok (last (t0 # map fst calls)) (acquire_all calls s)"
  using assms
proof (induction calls arbitrary: t0 s)
  case Nil
  then show ?case by simp
next
  case (Cons c calls)
  obtain now p where c: "c = (now, p)" by (cases c)
  from Cons.prems(2) have le: "t0 \<le> now" and srt: "sorted (now # map fst calls)"
    by (simp_all add: c)
  from check_rate_limit_ok [OF Cons.prems(1) le]
  have "limiter_ok now (snd (check_rate_limit now p s))" .
  from Cons.IH [OF this srt] show ?case by (simp add: c)
qed

text \<open>
  Claim C6, for clock readings that never decrease. Take a fresh object, any sequence of
  rate-limit checks, and one more check at the reading \<open>now\<close>, the readings in non-decreasing
  order. Every bucket \<open>b\<close> holds between zero and its capacity. The check first refills the
  bucket to \<open>r\<close>, which is not less than what the bucket held and not more than the capacity; it
  grants exactly when \<open>r\<close> is at least one; and it leaves \<open>r - 1\<close> tokens when it grants and \<open>r\<close>
  tokens when it denies, capacity and rate unchanged.
\<close>

theorem rate_bucket_invariant:
  assumes "sorted (map fst calls @ [now])"
      and "rate_limit (acquire_all calls (init c)) p = Some b"
  defines "s \<equiv> acquire_all calls (init c)"
  defines "r \<equiv> tokens (refill now p (last_refill s) b)"
  shows "0 \<le> tokens b \<and> tokens b \<le> max_tokens b
       \<and> tokens b \<le> r \<and> r \<le> max_tokens b
       \<and> (fst (check_rate_limit now p s) \<longleftrightarrow> 1 \<le> r)
       \<and> rate_limit (snd (check_rate_limit now p s)) p
           = Some (b\<lparr>tokens := (if 1 \<le> r then r - 1 else r)\<rparr>)"
proof -
  define t0 where "t0 = (if calls = [] then now else fst (hd calls))"
  have srt: "sorted (t0 # map fst calls)" and lst: "last (t0 # map fst calls) \<le> now"
    using assms(1) by (cases calls; auto simp: t0_def sorted_append last_map)+
  from acquire_all_ok [OF limiter_ok_init srt] lst have ok: "limiter_ok now s"
    unfolding s_def by (rule limiter_ok_mono)
  from ok assms(2) have b: "0 \<le> tokens b" "tokens b \<le> max_tokens b" "0 \<le> refill_rate b"
    unfolding limiter_ok_def s_def by blast+
  have past: "\<forall>m t. last_refill s = Some m \<longrightarrow> m p = Some t \<longrightarrow> t \<le> now"
    using ok unfolding limiter_ok_def by blast
  from refill_bounds [OF b(2) b(3) past] have r: "tokens b \<le> r" "r \<le> max_tokens b"
    by (simp_all add: r_def)
  from check_rate_limit_result [of s p b now] assms(2)
  have "(fst (check_rate_limit now p s) \<longleftrightarrow> 1 \<le> r) \<and>
        rate_limit (snd (check_rate_limit now p s)) p
          = Some (b\<lparr>tokens := (if 1 \<le> r then r - 1 else r)\<rparr>)"
    by (simp add: s_def r_def)
  with b r show ?thesis by simp
qed

theorem rate_bucket_invariant_witness:
  "sorted (map fst [(0, ''brave''), (1 / 2, ''brave'')] @ [2 :: real]) \<and>
   rate_limit (acquire_all [(0, ''brave''), (1 / 2, ''brave'')] (init [])) ''brave''
     = Some \<lparr>tokens = 117 / 2, max_tokens = 60, refill_rate = 1\<rparr> \<and>
   fst (check_rate_limit 2 ''brave'' (acquire_all [(0, ''brave''), (1 / 2, ''brave'')] (init []))) \<and>
   rate_limit (snd (check_rate_limit 2 ''brave''
                 (acquire_all [(0, ''brave''), (1 / 2, ''brave'')] (init [])))) ''brave''
     = Some \<lparr>tokens = 59, max_tokens = 60, refill_rate = 1\<rparr>"
proof -
  have h1: "sorted (map fst [(0, ''brave''), (1 / 2, ''brave'')] @ [2 :: real])" by simp
  have h2: "rate_limit (acquire_all [(0, ''brave''), (1 / 2, ''brave'')] (init [])) ''brave''
              = Some \<lparr>tokens = 117 / 2, max_tokens = 60, refill_rate = 1\<rparr>"
    by (simp add: init_def check_rate_limit_def refill_def Let_def)
  have h3: "tokens (refill 2 ''brave''
              (last_refill (acquire_all [(0, ''brave''), (1 / 2, ''brave'')] (init [])))
              \<lparr>tokens = 117 / 2, max_tokens = 60, refill_rate = 1\<rparr>) = 60"
    by (simp add: init_def check_rate_limit_def refill_def Let_def)
  show ?thesis
    using h1 h2 h3 rate_bucket_invariant [OF h1 h2] by simp
qed

text \<open>
  \<^verbatim>\<open>time.time()\<close> reads the wall clock, which may be set back between two calls. Then the
  elapsed time is negative and the refill step takes tokens away: after a check at reading 100
  and a check at reading 0 the Brave bucket holds \<open>-41\<close> tokens.
\<close>

theorem rate_bucket_backward_clock:
  "map_option tokens
     (rate_limit (acquire_all [(100, ''brave''), (0, ''brave'')] (init [])) ''brave'') = Some (- 41)"
  by (simp add: init_def check_rate_limit_def refill_def Let_def)

subsection \<open>Eviction\<close>

lemma newest_first:
  fixes f :: "'k \<times> 'v \<Rightarrow> real" and n :: nat
  assumes "distinct (map fst c)"
  defines "kept \<equiv> take n (sort_key (\<lambda>x. - f x) c)"
  shows "length kept = min n (length c) \<and> set kept \<subseteq> set c \<and> distinct (map fst kept) \<and>
         (\<forall>x \<in> set kept. \<forall>y \<in> set c - set kept. f y \<le> f x)"
proof -
  define xs where "xs = sort_key (\<lambda>x. - f x) c"
  have sx: "set xs = set c" and lx: "length xs = length c"
    by (simp_all add: xs_def)
  from assms(1) have "distinct c" and "inj_on fst (set c)"
    by (simp_all add: distinct_map)
  then have dx: "distinct (map fst xs)"
    by (simp add: distinct_map xs_def)
  have srt: "sorted (map (\<lambda>x. - f x) xs)"
    by (simp add: xs_def)
  have k: "kept = take n xs" by (simp add: kept_def xs_def)
  have split: "xs = take n xs @ drop n xs" by simp
  have 1: "length kept = min n (length c)" by (simp add: k lx min.commute)
  have 2: "set kept \<subseteq> set c" using set_take_subset [of n xs] by (simp add: k sx)
  have 3: "distinct (map fst kept)"
    using dx by (simp add: k take_map [symmetric] distinct_take)
  have 4: "f y \<le> f x" if x: "x \<in> set kept" and y: "y \<in> set c - set kept" for x y
  proof -
    from y have "y \<in> set (take n xs) \<union> set (drop n xs)"
      by (metis DiffD1 set_append split sx)
    with y have yd: "y \<in> set (drop n xs)" by (auto simp: k)
    from srt have "sorted (map (\<lambda>x. - f x) (take n xs) @ map (\<lambda>x. - f x) (drop n xs))"
      by (metis map_append split)
    then have "\<forall>a \<in> set (map (\<lambda>x. - f x) (take n xs)). \<forall>b \<in> set (map (\<lambda>x. - f x) (drop n xs)). a \<le> b"
      by (simp add: sorted_append)
    with x yd have "- f x \<le> - f y" by (auto simp: k)
    then show ?thesis by simp
  qed
  from 1 2 3 4 show ?thesis by blast
qed

text \<open>
  Claim C5. When the cache holds 1001 entries (under distinct keys, as a dictionary does),
  eviction leaves 1000 of them, and they are the most recently stored: no entry that was dropped
  has a later timestamp than an entry that was kept.
\<close>

theorem evict_cache_keeps_newest:
  assumes "length (cache s) = 1001" and "distinct (map fst (cache s))"
  defines "kept \<equiv> cache (evict_cache s)"
  shows "length kept = 1000 \<and> set kept \<subseteq> set (cache s) \<and> distinct (map fst kept) \<and>
         (\<forall>x \<in> set kept. \<forall>y \<in> set (cache s) - set kept.
            timestamp_of (snd y) \<le> timestamp_of (snd x))"
proof -
  have k: "kept = take 1000 (sort_key (\<lambda>x. - timestamp_of (snd x)) (cache s))"
    using assms(1) by (simp add: kept_def evict_cache_def max_cache_size_def)
  from newest_first [OF assms(2), of 1000 "\<lambda>x. timestamp_of (snd x)"] assms(1)
  show ?thesis unfolding k by simp
qed

lemma distinct_full_cache: "distinct (map fst full_cache)"
proof -
  have "map fst full_cache = map (\<lambda>i. replicate i CHR ''k'') [0..<1001]"
    by (simp add: full_cache_def entry_at_def comp_def)
  moreover have "inj_on (\<lambda>i. replicate i CHR ''k'') (set [0..<1001])"
    by (rule inj_onI) (metis length_replicate)
  ultimately show ?thesis by (simp add: distinct_map)
qed

theorem evict_cache_keeps_newest_witness:
  "length (cache (init full_cache)) = 1001 \<and> distinct (map fst (cache (init full_cache))) \<and>
   length (cache (evict_cache (init full_cache))) = 1000 \<and>
   distinct (map fst (cache (evict_cache (init full_cache))))"
proof -
  have h1: "length (cache (init full_cache)) = 1001"
    by (simp add: init_def full_cache_def)
  have h2: "distinct (map fst (cache (init full_cache)))"
    using distinct_full_cache by (simp add: init_def)
  show ?thesis
    using h1 h2 evict_cache_keeps_newest [OF h1 h2] by simp
qed

subsection \<open>The retry rounds\<close>

text \<open>
  The backoff expression raises for every query, in every round: \<^verbatim>\<open>%\<close> on a \<^verbatim>\<open>str\<close> formats,
  and a digest of hexadecimal digits has no conversion specifier to take the argument 10. The
  exception is raised inside the \<^verbatim>\<open>try\<close> block, so it is caught and recorded as an error of
  the provider. In a round after the first the loop body therefore never sleeps, never invokes an
  adapter and never returns a result.
\<close>

lemma backoff_raises: "\<exists>e. backoff env attempt query = Inl e"
  by (cases "str_mod env (take 2 (md5_hexdigest env query)) 10")
     (simp_all add: backoff_def str_truediv_def)

lemma backoff_hex:
  assumes "CHR ''%'' \<notin> set (md5_hexdigest env query)"
  shows "backoff env attempt query =
           Inl (TypeError ''not all arguments converted during string formatting'')"
proof -
  from assms have "CHR ''%'' \<notin> set (take 2 (md5_hexdigest env query))"
    by (auto dest: in_set_takeD)
  then show ?thesis by (simp add: backoff_def str_mod_def)
qed

lemma trace_check_rate_limit: "trace (snd (check_rate_limit now p s)) = trace s"
  by (simp add: check_rate_limit_def Let_def split: option.splits)

lemma trace_on_exception: "trace (snd (on_exception env p e s)) = trace s"
  by (simp add: on_exception_def time_time_def record_provider_error_def Let_def)

lemma errors_on_exception:
  "errors_of (snd (on_exception env p e s)) p = errors_of s p + 1"
  by (simp add: on_exception_def time_time_def errors_of_def record_provider_error_def Let_def
      split: option.splits)

lemma retry_round_never_reaches_adapter:
  assumes "0 < attempt"
  shows "trace (snd (try_provider env query search_type cache_key attempt p last_error s)) = trace s
       \<and> (\<forall>r. fst (try_provider env query search_type cache_key attempt p last_error s) \<noteq> Return r)"
proof -
  obtain e where e: "backoff env attempt query = Inl e"
    using backoff_raises by blast
  obtain granted s2 where c: "check_rate_limit (clock env (ticks s)) p (s\<lparr>ticks := Suc (ticks s)\<rparr>) = (granted, s2)"
    by (cases "check_rate_limit (clock env (ticks s)) p (s\<lparr>ticks := Suc (ticks s)\<rparr>)")
  have t2: "trace s2 = trace s"
    using trace_check_rate_limit [of "clock env (ticks s)" p "s\<lparr>ticks := Suc (ticks s)\<rparr>"] c
    by simp
  show ?thesis
  proof (cases granted)
    case False
    with c t2 show ?thesis by (simp add: try_provider_def time_time_def)
  next
    case True
    with c assms e have "try_provider env query search_type cache_key attempt p last_error s
        = on_exception env p e s2"
      by (simp add: try_provider_def time_time_def)
    then show ?thesis
      using t2 trace_on_exception [of env p e s2] by (simp add: on_exception_def case_prod_beta)
  qed
qed

lemmas eval_defs =
  search_def search_providers_def try_provider_def call_adapter_def store_result_def
  on_exception_def backoff_def str_mod_def str_truediv_def search_with_provider_def
  get_cache_key_def time_time_def check_rate_limit_def refill_def record_provider_error_def
  evict_cache_def max_cache_size_def init_def env0_def str_last_error_def errors_of_def
  sanitize_query_def strip_def isspace_def dangerous_def replace_char_def pystr_of_def
  max_query_length_def Let_def

text \<open>
  Claim C2, on the code. The claim is that every attempt after the first sleeps for
  \<open>2 ^ attempt\<close> seconds plus a jitter derived from the query, and then invokes the adapter. Take
  the query \<^verbatim>\<open>python\<close>, the provider Brave and an adapter that finds nothing. The backoff of round
  1 is not a number but a \<^verbatim>\<open>TypeError\<close>. Over the whole call the trace holds one event, the
  adapter call of round 0: rounds 1 and 2 neither sleep nor call the adapter, and each records an
  error for Brave, whose adapter never raised.
\<close>

theorem retry_rounds_raise_instead_of_sleeping:
  "backoff (env0 (\<lambda>n q t. Inr [])) 1 (pystr_of ''python'') =
     Inl (TypeError ''not all arguments converted during string formatting'') \<and>
   trace (snd (search (env0 (\<lambda>n q t. Inr [])) (pystr_of ''python'') ''web'' (Some ''brave'')
                 (init [])))
     = [Called ''brave'' (pystr_of ''python'') ''web''] \<and>
   errors_of (snd (search (env0 (\<lambda>n q t. Inr [])) (pystr_of ''python'') ''web'' (Some ''brave'')
                     (init []))) ''brave'' = 2"
  by (simp add: eval_defs)

text \<open>
  Claim C10, on the code. The claim is that a call in which no adapter raises ends with the
  error \<^verbatim>\<open>None\<close>. In the same run, where the only adapter call returns an empty list, the error
  is the message of the \<^verbatim>\<open>TypeError\<close> that the backoff expression raised in rounds 1 and 2.
\<close>

theorem exhausted_search_reports_backoff_error:
  "fst (search (env0 (\<lambda>n q t. Inr [])) (pystr_of ''python'') ''web'' (Some ''brave'') (init [])) =
     \<lparr>r_error = Some ''not all arguments converted during string formatting'', r_results = [],
      r_provider = None, r_cached = None, r_query = Some (pystr_of ''python'')\<rparr>"
  by (simp add: eval_defs)

subsection \<open>A successful search\<close>

text \<open>
  What storing a result does: the answer is tagged \<^verbatim>\<open>cached=False\<close>, the cache maps the key to
  the new entry (as long as the cache is not full, so that eviction does not run), and the provider
  statistics are untouched. More generally, nothing in \<^verbatim>\<open>search\<close> ever lowers the error count
  of a provider.
\<close>

lemma map_of_dict_set: "map_of (dict_set k v xs) = (map_of xs)(k \<mapsto> v)"
  by (induction xs) (auto simp: fun_eq_iff)

lemma length_dict_set: "length (dict_set k v xs) \<le> Suc (length xs)"
  by (induction xs) auto

lemma store_result_effect:
  fixes env :: env and query :: pystr and search_type cache_key p :: string
    and rs :: "result_item list"
  assumes "length (cache s) < max_cache_size"
  defines "s' \<equiv> snd (store_result env query search_type cache_key p rs s)"
  shows "fst (store_result env query search_type cache_key p rs s) =
           Return \<lparr>r_error = None, r_results = rs, r_provider = Some p, r_cached = Some False,
                   r_query = Some query\<rparr>"
    and "map_of (cache s') cache_key =
           Some \<lparr>e_results = rs, e_provider = p, e_timestamp = Some (clock env (ticks s)),
                 e_type = Some search_type\<rparr>"
    and "provider_stats s' = provider_stats s"
proof -
  show "fst (store_result env query search_type cache_key p rs s) =
           Return \<lparr>r_error = None, r_results = rs, r_provider = Some p, r_cached = Some False,
                   r_query = Some query\<rparr>"
    by (simp add: store_result_def time_time_def Let_def)
  have "\<not> max_cache_size < length (dict_set cache_key v (cache s))" for v
    using assms(1) length_dict_set [of cache_key v "cache s"] by simp
  then show "map_of (cache s') cache_key =
           Some \<lparr>e_results = rs, e_provider = p, e_timestamp = Some (clock env (ticks s)),
                 e_type = Some search_type\<rparr>"
    by (simp add: s'_def store_result_def time_time_def Let_def evict_cache_def map_of_dict_set)
  show "provider_stats s' = provider_stats s"
    by (simp add: s'_def store_result_def time_time_def Let_def evict_cache_def)
qed

lemma errors_of_trace_update: "errors_of (x\<lparr>trace := tr\<rparr>) q = errors_of x q"
  by (simp add: errors_of_def)

lemma errors_of_ticks_update: "errors_of (x\<lparr>ticks := n\<rparr>) q = errors_of x q"
  by (simp add: errors_of_def)

lemma errors_of_check_rate_limit: "errors_of (snd (check_rate_limit now p s)) q = errors_of s q"
  by (simp add: check_rate_limit_def errors_of_def Let_def split: option.splits)

lemma errors_of_record_le: "errors_of s q \<le> errors_of (record_provider_error now p s) q"
  by (simp add: record_provider_error_def errors_of_def Let_def split: option.splits)

lemma errors_of_on_exception: "errors_of s q \<le> errors_of (snd (on_exception env p e s)) q"
  using errors_of_record_le [of "s\<lparr>ticks := Suc (ticks s)\<rparr>" q "clock env (ticks s)" p]
  by (simp add: on_exception_def time_time_def errors_of_ticks_update)

lemma errors_of_store_result:
  "errors_of (snd (store_result env query search_type cache_key p rs s)) q = errors_of s q"
  by (simp add: store_result_def time_time_def Let_def evict_cache_def errors_of_def)

lemma errors_of_call_adapter:
  "errors_of s q \<le> errors_of (snd (call_adapter env query search_type cache_key p le s)) q"
proof -
  define s1 where "s1 = s\<lparr>trace := trace s @ [Called p query search_type]\<rparr>"
  have e1: "errors_of s1 q = errors_of s q"
    by (simp add: s1_def errors_of_trace_update)
  show ?thesis
  proof (cases "search_with_provider env (length (trace s)) p query search_type")
    case (Inl e)
    then show ?thesis
      using errors_of_on_exception [of s1 q env p e]
      by (simp add: call_adapter_def s1_def [symmetric] e1)
  next
    case (Inr rs)
    then show ?thesis
      using errors_of_store_result [of env query search_type cache_key p rs s1 q]
      by (simp add: call_adapter_def s1_def [symmetric] e1)
  qed
qed

lemma errors_of_try_provider:
  "errors_of s q \<le> errors_of (snd (try_provider env query search_type cache_key attempt p le s)) q"
proof -
  define s1 where "s1 = s\<lparr>ticks := Suc (ticks s)\<rparr>"
  define s2 where "s2 = snd (check_rate_limit (clock env (ticks s)) p s1)"
  have e2: "errors_of s2 q = errors_of s q"
    by (simp add: s2_def s1_def errors_of_check_rate_limit errors_of_ticks_update)
  note u = errors_of_trace_update
  show ?thesis
    using errors_of_on_exception [of s2 q env p] errors_of_call_adapter [of s2 q env query search_type cache_key p le]
      errors_of_call_adapter [of "s2\<lparr>trace := trace s2 @ [Slept b]\<rparr>" q env query search_type cache_key p le for b]
    by (auto simp: try_provider_def time_time_def case_prod_beta Let_def e2 u
        s1_def [symmetric] s2_def [symmetric] split: sum.splits)
qed

lemma errors_of_try_providers:
  "errors_of s q \<le> errors_of (snd (try_providers env query search_type cache_key attempt ps le s)) q"
proof (induction ps arbitrary: le s)
  case Nil
  show ?case by simp
next
  case (Cons p ps)
  obtain out s' where t: "try_provider env query search_type cache_key attempt p le s = (out, s')"
    by (cases "try_provider env query search_type cache_key attempt p le s")
  with errors_of_try_provider [of s q env query search_type cache_key attempt p le]
  have le': "errors_of s q \<le> errors_of s' q" by simp
  show ?case
  proof (cases out)
    case (Return r)
    with t le' show ?thesis by simp
  next
    case (Next e)
    with t le' Cons.IH [where s = s' and le = e] show ?thesis by simp
  qed
qed

lemma errors_of_attempts:
  "errors_of s q \<le> errors_of (snd (attempts env query search_type cache_key ps as le s)) q"
proof (induction as arbitrary: le s)
  case Nil
  show ?case by simp
next
  case (Cons a as)
  obtain out s' where t: "try_providers env query search_type cache_key a ps le s = (out, s')"
    by (cases "try_providers env query search_type cache_key a ps le s")
  with errors_of_try_providers [of s q env query search_type cache_key a ps le]
  have le': "errors_of s q \<le> errors_of s' q" by simp
  show ?case
  proof (cases out)
    case (Return r)
    with t le' show ?thesis by simp
  next
    case (Next e)
    with t le' Cons.IH [where s = s' and le = e] show ?thesis by simp
  qed
qed

lemma errors_of_is_provider_healthy:
  "errors_of (snd (is_provider_healthy now p s)) q = errors_of s q"
  by (simp add: is_provider_healthy_def errors_of_def split: option.splits)

lemma errors_of_healthy_of: "errors_of (snd (healthy_of env ps s)) q = errors_of s q"
proof (induction ps arbitrary: s)
  case Nil
  show ?case by simp
next
  case (Cons p ps)
  note u = errors_of_ticks_update
  show ?case
    by (simp add: time_time_def case_prod_beta Let_def Cons.IH errors_of_is_provider_healthy u)
qed

lemma errors_of_search_providers:
  "errors_of s q \<le> errors_of (snd (search_providers env query search_type cache_key provider s)) q"
proof -
  define start where "start =
    (case provider of None \<Rightarrow> get_provider_order env s
     | Some p \<Rightarrow> if p \<noteq> [] then ([p], s) else get_provider_order env s)"
  have "errors_of (snd (get_provider_order env s)) q = errors_of s q"
    by (simp add: get_provider_order_def case_prod_beta errors_of_healthy_of)
  then have st: "errors_of (snd start) q = errors_of s q"
    by (simp add: start_def split: option.splits)
  obtain out s' where a:
    "attempts env query search_type cache_key (fst start) [0, 1, 2] None (snd start) = (out, s')"
    by (cases "attempts env query search_type cache_key (fst start) [0, 1, 2] None (snd start)")
  from errors_of_attempts [of "snd start" q env query search_type cache_key "fst start" "[0, 1, 2]" None] a st
  have "errors_of s q \<le> errors_of s' q" by simp
  with a show ?thesis
    unfolding search_providers_def start_def [symmetric]
    by (cases out) (simp_all add: case_prod_beta)
qed

lemma search_never_lowers_errors:
  "errors_of s q \<le> errors_of (snd (search env raw search_type provider s)) q"
proof -
  note u = errors_of_ticks_update
  show ?thesis
    using errors_of_search_providers [of s q env] errors_of_search_providers [of "s\<lparr>ticks := Suc (ticks s)\<rparr>" q env]
    by (auto simp: search_def Let_def time_time_def u split: option.splits)
qed

text \<open>
  Claim C1, on the code. The claim is that a response with at least one result is stored in
  the cache, resets the error count of the provider and is returned tagged \<^verbatim>\<open>cached=False\<close>.
  Take an object on which four errors have been recorded for Brave, and a Brave adapter that
  returns one result. The search returns that result from Brave, tagged \<^verbatim>\<open>cached=False\<close>, but
  the error count of Brave is still 4, and the next error, the first after the success, opens the
  circuit.
\<close>

theorem success_leaves_error_count:
  "errors_of four_errors ''brave'' = 4 \<and>
   fst (search (env0 (\<lambda>n q t. Inr [item0])) (pystr_of ''python'') ''web'' (Some ''brave'')
          four_errors) =
     \<lparr>r_error = None, r_results = [item0], r_provider = Some ''brave'', r_cached = Some False,
      r_query = Some (pystr_of ''python'')\<rparr> \<and>
   errors_of (snd (search (env0 (\<lambda>n q t. Inr [item0])) (pystr_of ''python'') ''web''
                     (Some ''brave'') four_errors)) ''brave'' = 4 \<and>
   map_option circuit_open
     (provider_stats
        (record_provider_error 9 ''brave''
           (snd (search (env0 (\<lambda>n q t. Inr [item0])) (pystr_of ''python'') ''web''
                   (Some ''brave'') four_errors))) ''brave'') = Some True"
  by (simp add: eval_defs four_errors_def record_errors_def)

text \<open>
  Claim C3, on the code. The claim is that the URL of every result is stripped of tracking
  parameters before the result is stored. The source defines \<^verbatim>\<open>_sanitize_result\<close> and
  \<^verbatim>\<open>_sanitize_url\<close> for that, but no method calls them: \<^verbatim>\<open>search\<close> stores the list the adapter
  returned. Take a Brave adapter whose result has a URL with the parameter \<^verbatim>\<open>utm_source\<close>. After
  the search the cache entry of the query holds that result as it came, tracking parameter
  included.
\<close>

theorem cache_keeps_tracking_parameter:
  "map_option e_results
     (map_of (cache (snd (search (env0 (\<lambda>n q t. Inr [item0])) (pystr_of ''python'') ''web''
                            (Some ''brave'') (init []))))
        ''c9cb85f988d20fafb345a7594e779363'')
     = Some [item0] \<and>
   url item0 = pystr_of ''https://example.com/page?utm_source=newsletter&id=7'' \<and>
   contains (pystr_of ''utm_source='') (url item0)"
  by (simp add: eval_defs item0_def)

end
